theory Spec2Isabelle
  imports Complex_Main "HOL-Library.Sublist"
begin

section \<open>Python strings\<close>

text \<open>
  Narrations and keywords are Python \<^verbatim>\<open>str\<close> values, modelled as \<^typ>\<open>string\<close> over the
  ASCII range. \<^verbatim>\<open>str.lower\<close> maps the letters A..Z to a..z and leaves every other
  character alone; \<^verbatim>\<open>str.split()\<close> without arguments cuts at runs of whitespace
  (the ASCII characters for which \<^verbatim>\<open>str.isspace\<close> holds) and drops empty pieces.
\<close>

definition is_space :: "char \<Rightarrow> bool" where
  "is_space c = (c \<in> set [CHR 0x09, CHR 0x0A, CHR 0x0B, CHR 0x0C, CHR 0x0D,
                            CHR 0x1C, CHR 0x1D, CHR 0x1E, CHR 0x1F, CHR 0x20])"

definition lower_char :: "char \<Rightarrow> char" where
  "lower_char c =
     (case map_of (zip ''ABCDEFGHIJKLMNOPQRSTUVWXYZ'' ''abcdefghijklmnopqrstuvwxyz'') c of
        None \<Rightarrow> c
      | Some d \<Rightarrow> d)"

definition py_lower :: "string \<Rightarrow> string" where
  "py_lower s = map lower_char s"

text \<open>\<open>split_acc w s\<close> scans \<open>s\<close> with the current, unfinished word \<open>w\<close>.\<close>

fun split_acc :: "string \<Rightarrow> string \<Rightarrow> string list" where
  "split_acc w [] = (if w = [] then [] else [w])"
| "split_acc w (c # cs) =
     (if is_space c then (if w = [] then split_acc [] cs else w # split_acc [] cs)
      else split_acc (w @ [c]) cs)"

definition py_split :: "string \<Rightarrow> string list" where
  "py_split s = split_acc [] s"

text \<open>Decimal rendering of an integer, as an f-string does it.\<close>

fun dec_nat :: "nat \<Rightarrow> string" where
  "dec_nat n =
     (if n < 10 then [''0123456789'' ! n]
      else dec_nat (n div 10) @ [''0123456789'' ! (n mod 10)])"

definition py_str_int :: "int \<Rightarrow> string" where
  "py_str_int i = (if i < 0 then ''-'' @ dec_nat (nat (- i)) else dec_nat (nat i))"

section \<open>The rule store\<close>

text \<open>
  \<^verbatim>\<open>self.categories\<close> is the dict loaded from the YAML rules file: category name to
  \<^verbatim>\<open>{keywords: [...], weight: w}\<close>, where \<^verbatim>\<open>weight\<close> may be missing
  (\<^verbatim>\<open>info.get('weight', 1.0)\<close>). A Python dict iterates in insertion order and its keys
  are distinct, so it is an association list; floats are idealised as reals.
\<close>

datatype py_error = ZeroDivisionError | KeyError | ValueError | NotFittedError | AttributeError

record category_info =
  "keywords" :: "string list"
  weight :: "real option"

type_synonym rule_table = "(string \<times> category_info) list"

definition get_weight :: "category_info \<Rightarrow> real" where
  "get_weight info = (case weight info of None \<Rightarrow> 1 | Some w \<Rightarrow> w)"

section \<open>keyword_match\<close>

text \<open>\<^verbatim>\<open>score = sum(1 for kw in info['keywords'] if kw in text_lower)\<close>\<close>

definition score :: "category_info \<Rightarrow> string \<Rightarrow> nat" where
  "score info text_lower = length (filter (\<lambda>kw. sublist kw text_lower) (keywords info))"

text \<open>\<^verbatim>\<open>score * info.get('weight', 1.0)\<close>\<close>

definition weighted_score :: "category_info \<Rightarrow> string \<Rightarrow> real" where
  "weighted_score info text_lower = real (score info text_lower) * get_weight info"

text \<open>The loop that fills \<^verbatim>\<open>matches\<close>: one entry for each category with a positive count.\<close>

fun build_matches :: "rule_table \<Rightarrow> string \<Rightarrow> (string \<times> real) list" where
  "build_matches [] text_lower = []"
| "build_matches ((cat, info) # rest) text_lower =
     (if score info text_lower > 0
      then (cat, weighted_score info text_lower) # build_matches rest text_lower
      else build_matches rest text_lower)"

text \<open>
  \<^verbatim>\<open>max(matches, key=matches.get)\<close> keeps the first entry and replaces it only by a
  strictly larger one. The entry is returned with its value, which is what
  \<^verbatim>\<open>matches[best_category]\<close> reads, the keys being distinct.
\<close>

fun max_by :: "string \<times> real \<Rightarrow> (string \<times> real) list \<Rightarrow> string \<times> real" where
  "max_by best [] = best"
| "max_by best (p # ps) = (if snd best < snd p then max_by p ps else max_by best ps)"

definition keyword_match :: "rule_table \<Rightarrow> string \<Rightarrow> py_error + (string \<times> real)" where
  "keyword_match cats text =
     (let text_lower = py_lower text;
          matches = build_matches cats text_lower
      in case matches of
           [] \<Rightarrow> Inr (''Unknown'', 0)
         | m # ms \<Rightarrow>
             (let best = max_by m ms;
                  n = length (py_split text)
              in if n = 0 then Inl ZeroDivisionError
                 else Inr (fst best, snd best / real n)))"

text \<open>Well-formedness conditions of a rule table that the properties below refer to.\<close>

definition weights_nonneg :: "rule_table \<Rightarrow> bool" where
  "weights_nonneg cats = (\<forall>(cat, info) \<in> set cats. 0 \<le> get_weight info)"

definition keywords_nonblank :: "rule_table \<Rightarrow> bool" where
  "keywords_nonblank cats =
     (\<forall>(cat, info) \<in> set cats. \<forall>kw \<in> set (keywords info). \<exists>ch \<in> set kw. \<not> is_space ch)"

text \<open>The rule tables of the specification's example and of the test fixture.\<close>

definition healthcare_rules :: rule_table where
  "healthcare_rules =
     [(''Healthcare'', \<lparr>keywords = [''pharmacy'', ''doctor''], weight = Some (3 / 2)\<rparr>)]"

definition fixture_rules :: rule_table where
  "fixture_rules =
     [(''Healthcare'',
         \<lparr>keywords = [''pharmacy'', ''doctor'', ''hospital'', ''medical''], weight = Some (3 / 2)\<rparr>),
      (''Groceries'',
         \<lparr>keywords = [''walmart'', ''grocery'', ''supermarket'', ''food''], weight = Some 1\<rparr>),
      (''Transportation'',
         \<lparr>keywords = [''uber'', ''taxi'', ''lyft'', ''gas''], weight = Some 1\<rparr>)]"

text \<open>
  A rule table whose first category has no \<^verbatim>\<open>weight\<close> entry, and one whose only keyword
  is a blank.
\<close>

definition default_weight_rules :: rule_table where
  "default_weight_rules =
     [(''Groceries'', \<lparr>keywords = [''walmart'', ''grocery'', ''supermarket''], weight = None\<rparr>),
      (''Healthcare'', \<lparr>keywords = [''pharmacy'', ''doctor''], weight = Some (3 / 2)\<rparr>)]"

definition blank_rules :: rule_table where
  "blank_rules = [(''Misc'', \<lparr>keywords = ['' ''], weight = None\<rparr>)]"

section \<open>The engine\<close>

text \<open>
  A row of the input frame (\<^verbatim>\<open>row['narration']\<close>, \<^verbatim>\<open>row['amount']\<close>) and a row of the
  result frame, whose columns are exactly the keys of the dict that \<^verbatim>\<open>classify_batch\<close>
  appends: narration, amount, category, confidence, method.
\<close>

record txn =
  narration :: string
  amount :: real

record classified = txn +
  category :: string
  confidence :: real
  "method" :: string

text \<open>
  The scikit-learn estimators are library code. They are parameters of the model:
  \<open>'v\<close> is the fitted state of a \<^verbatim>\<open>TfidfVectorizer\<close>, \<open>'x\<close> a feature row, \<open>'m\<close> a fitted
  \<^verbatim>\<open>RandomForestClassifier\<close>. A fit may raise (\<open>None\<close>, a \<^verbatim>\<open>ValueError\<close>).
  \<^verbatim>\<open>transform\<close> works row by row on a fitted state. \<^verbatim>\<open>predict\<close> and
  \<^verbatim>\<open>predict_proba(...).max(axis=1)\<close> give one value for each feature row, or raise
  (\<open>None\<close>, a \<^verbatim>\<open>ValueError\<close>) on a row that the classifier does not accept, as when the
  number of features differs from the one it was fitted with. \<^verbatim>\<open>fit_predict\<close> of DBSCAN
  returns one label for each row.
\<close>

record ('v, 'x, 'm) sklearn =
  tfidf_fit :: "string list \<Rightarrow> 'v option"
  tfidf_transform :: "'v \<Rightarrow> string \<Rightarrow> 'x"
  dbscan_fit_predict :: "'x list \<Rightarrow> int list"
  forest_fit :: "('x \<times> string \<times> real option) list \<Rightarrow> 'm option"
  forest_predict :: "'m \<Rightarrow> 'x \<Rightarrow> string option"
  forest_predict_proba :: "'m \<Rightarrow> 'x \<Rightarrow> real option"

text \<open>
  The attributes of \<^verbatim>\<open>AdaptiveNERClassifier\<close> that its methods read or write.
  \<open>vectorizer\<close> is \<open>None\<close> while the one vectorizer object of the engine is unfitted;
  \<open>ml_classifier\<close> is \<open>None\<close> as in the source.
\<close>

record ('v, 'm) engine =
  categories :: rule_table
  unknown_threshold :: real
  vectorizer :: "'v option"
  ml_classifier :: "'m option"

definition init_engine :: "rule_table \<Rightarrow> real \<Rightarrow> ('v, 'm) engine" where
  "init_engine cats thr =
     \<lparr>categories = cats, unknown_threshold = thr, vectorizer = None, ml_classifier = None\<rparr>"

text \<open>
  The dict that the loop appends for a row, and the \<^verbatim>\<open>for idx, row in df.iterrows()\<close>
  loop itself; an exception of \<open>keyword_match\<close> ends it.
\<close>

definition rule_row :: "txn \<Rightarrow> string \<Rightarrow> real \<Rightarrow> classified" where
  "rule_row row cat conf =
     \<lparr>narration = narration row, amount = amount row, category = cat,
      confidence = conf, method = ''rule-based''\<rparr>"

fun rule_based_rows :: "rule_table \<Rightarrow> txn list \<Rightarrow> py_error + classified list" where
  "rule_based_rows cats [] = Inr []"
| "rule_based_rows cats (row # rows) =
     (case keyword_match cats (narration row) of
        Inl e \<Rightarrow> Inl e
      | Inr (cat, conf) \<Rightarrow>
          (case rule_based_rows cats rows of
             Inl e \<Rightarrow> Inl e
           | Inr results \<Rightarrow> Inr (rule_row row cat conf # results)))"

text \<open>
  The three assignments \<^verbatim>\<open>df.loc[mask, ...] = ...\<close> of \<^verbatim>\<open>_ml_classify\<close>: the masked rows
  take the predictions and probabilities in order, with method ml-based; the other rows
  stay. (The values are computed from the masked rows, so there is one for each; the
  second case of the inner \<open>case\<close> is never reached.)
\<close>

fun loc_assign :: "classified list \<Rightarrow> bool list \<Rightarrow> (string \<times> real) list \<Rightarrow> classified list" where
  "loc_assign (r # rs) (low # lows) vals =
     (if low then
        (case vals of
           (p, q) # vals' \<Rightarrow>
             r\<lparr>category := p, confidence := q, method := ''ml-based''\<rparr> # loc_assign rs lows vals'
         | [] \<Rightarrow> r # loc_assign rs lows [])
      else r # loc_assign rs lows vals)"
| "loc_assign [] lows vals = []"
| "loc_assign rs [] vals = rs"

text \<open>
  \<^verbatim>\<open>_ml_classify\<close>: transform the narrations of the masked rows, predict, take the
  probabilities, then assign. An unfitted vectorizer, a missing classifier and a refused
  feature row are the exceptions of the three calls.
\<close>

definition ml_classify ::
  "('v, 'x, 'm) sklearn \<Rightarrow> ('v, 'm) engine \<Rightarrow> classified list \<Rightarrow> bool list
     \<Rightarrow> py_error + classified list" where
  "ml_classify sk st df low_mask =
     (let low_conf_df = map fst (filter snd (zip df low_mask))
      in case vectorizer st of
           None \<Rightarrow> Inl NotFittedError
         | Some v \<Rightarrow>
             (let X = map (\<lambda>r. tfidf_transform sk v (narration r)) low_conf_df
              in case ml_classifier st of
                   None \<Rightarrow> Inl AttributeError
                 | Some m \<Rightarrow>
                     (case those (map (forest_predict sk m) X) of
                        None \<Rightarrow> Inl ValueError
                      | Some predictions \<Rightarrow>
                          (case those (map (forest_predict_proba sk m) X) of
                             None \<Rightarrow> Inl ValueError
                           | Some probabilities \<Rightarrow>
                               Inr (loc_assign df low_mask (zip predictions probabilities))))))"

text \<open>
  \<^verbatim>\<open>pd.DataFrame([])\<close> has no columns, so with a model present an empty batch fails at
  \<^verbatim>\<open>result_df['confidence']\<close>.
\<close>

definition classify_batch ::
  "('v, 'x, 'm) sklearn \<Rightarrow> ('v, 'm) engine \<Rightarrow> txn list \<Rightarrow> py_error + classified list" where
  "classify_batch sk st df =
     (case rule_based_rows (categories st) df of
        Inl e \<Rightarrow> Inl e
      | Inr result_df \<Rightarrow>
          (if ml_classifier st \<noteq> None then
             (if result_df = [] then Inl KeyError
              else
                (let low_conf_mask = map (\<lambda>r. confidence r < unknown_threshold st) result_df
                 in if 0 < length (filter (\<lambda>b. b) low_conf_mask)
                    then ml_classify sk st result_df low_conf_mask
                    else Inr result_df))
           else Inr result_df))"

text \<open>
  \<^verbatim>\<open>discover_new_categories\<close> returns the engine after the call and the dict it built
  (as its items; the order in which a Python set yields the labels is not specified).
  The fit is \<^verbatim>\<open>self.vectorizer.fit_transform(unknown_texts)\<close>: on the engine's own vectorizer.
\<close>

definition cluster_texts :: "string list \<Rightarrow> int list \<Rightarrow> int \<Rightarrow> string list" where
  "cluster_texts unknown_texts labels label =
     map fst (filter (\<lambda>(t, l). l = label) (zip unknown_texts labels))"

definition discover_new_categories ::
  "('v, 'x, 'm) sklearn \<Rightarrow> ('v, 'm) engine \<Rightarrow> string list
     \<Rightarrow> py_error + (('v, 'm) engine \<times> (string \<times> string list) list)" where
  "discover_new_categories sk st unknown_texts =
     (if length unknown_texts < 5 then Inr (st, [])
      else
        (case tfidf_fit sk unknown_texts of
           None \<Rightarrow> Inl ValueError
         | Some v \<Rightarrow>
             (let X = map (tfidf_transform sk v) unknown_texts;
                  labels = dbscan_fit_predict sk X;
                  new_categories =
                    map (\<lambda>label. (''NewCategory_'' @ py_str_int label,
                                   cluster_texts unknown_texts labels label))
                      (filter (\<lambda>label. label \<noteq> - 1) (remdups labels))
              in Inr (st\<lparr>vectorizer := Some v\<rparr>, new_categories))))"

text \<open>
  \<^verbatim>\<open>train_ml_model\<close> returns the engine after the call. The sample weights are
  \<^verbatim>\<open>|amount| / sum |amount|\<close>; when the sum is zero every quotient is \<^verbatim>\<open>0/0\<close>, a NaN (\<open>None\<close>).
  Where a fit raises, the call raises; what an exception leaves in the engine is not modelled.
\<close>

definition sample_weights :: "classified list \<Rightarrow> real option list" where
  "sample_weights train_df =
     (let total = sum_list (map (\<lambda>r. \<bar>amount r\<bar>) train_df)
      in map (\<lambda>r. if total = 0 then None else Some (\<bar>amount r\<bar> / total)) train_df)"

definition train_ml_model ::
  "('v, 'x, 'm) sklearn \<Rightarrow> ('v, 'm) engine \<Rightarrow> classified list \<Rightarrow> py_error + ('v, 'm) engine" where
  "train_ml_model sk st df =
     (let train_df = filter (\<lambda>r. category r \<noteq> ''Unknown'') df
      in if length train_df < 10 then Inr st
         else
           (case tfidf_fit sk (map narration train_df) of
              None \<Rightarrow> Inl ValueError
            | Some v \<Rightarrow>
                (let X = map (\<lambda>r. tfidf_transform sk v (narration r)) train_df;
                     y = map category train_df
                 in case forest_fit sk (zip X (zip y (sample_weights train_df))) of
                      None \<Rightarrow> Inl ValueError
                    | Some m \<Rightarrow> Inr (st\<lparr>vectorizer := Some v, ml_classifier := Some m\<rparr>))))"

subsection \<open>An instance of the library interface\<close>

text \<open>
  The properties below hold for every instance of \<open>sklearn\<close>. To evaluate the engine on
  examples, this small instance is used: the vectorizer state is the list of distinct
  lower-cased words of the corpus, a feature row tells which of them a text has, the
  clustering groups equal rows, and the classifier remembers its training rows and
  refuses a feature row whose length is not theirs.
\<close>

definition demo_fit :: "string list \<Rightarrow> string list option" where
  "demo_fit texts = Some (remdups (concat (map (\<lambda>t. py_split (py_lower t)) texts)))"

definition demo_transform :: "string list \<Rightarrow> string \<Rightarrow> bool list" where
  "demo_transform v t = map (\<lambda>w. w \<in> set (py_split (py_lower t))) v"

definition demo_dbscan :: "bool list list \<Rightarrow> int list" where
  "demo_dbscan X =
     map (\<lambda>x. if count_list X x < 2 then - 1
               else int (length (takeWhile (\<lambda>y. y \<noteq> x) (remdups X)))) X"

definition demo_accepts :: "(bool list \<times> string \<times> real option) list \<Rightarrow> bool list \<Rightarrow> bool" where
  "demo_accepts m x = list_all (\<lambda>(x', yw). length x' = length x) m"

definition demo_predict ::
  "(bool list \<times> string \<times> real option) list \<Rightarrow> bool list \<Rightarrow> string option" where
  "demo_predict m x =
     (if demo_accepts m x
      then Some (case map_of m x of None \<Rightarrow> ''Other'' | Some (y, w) \<Rightarrow> y)
      else None)"

definition demo_proba ::
  "(bool list \<times> string \<times> real option) list \<Rightarrow> bool list \<Rightarrow> real option" where
  "demo_proba m x =
     (if demo_accepts m x
      then Some (case map_of m x of None \<Rightarrow> 1 / 2 | Some (y, w) \<Rightarrow> 1)
      else None)"

definition demo_sklearn ::
  "(string list, bool list, (bool list \<times> string \<times> real option) list) sklearn" where
  "demo_sklearn =
     \<lparr>tfidf_fit = demo_fit, tfidf_transform = demo_transform,
      dbscan_fit_predict = demo_dbscan, forest_fit = Some,
      forest_predict = demo_predict, forest_predict_proba = demo_proba\<rparr>"

text \<open>
  An engine as \<^verbatim>\<open>train_ml_model\<close> leaves it: vectorizer fitted on a training corpus,
  classifier present. And a list of unmatched narrations for discovery.
\<close>

definition demo_trained ::
  "(string list, (bool list \<times> string \<times> real option) list) engine" where
  "demo_trained =
     \<lparr>categories = fixture_rules, unknown_threshold = 3 / 10,
      vectorizer = Some [''corner'', ''shop''],
      ml_classifier = Some [([True, True], ''Groceries'', Some 1)]\<rparr>"

definition demo_untrained ::
  "(string list, (bool list \<times> string \<times> real option) list) engine" where
  "demo_untrained = init_engine fixture_rules (3 / 10)"

definition demo_blank ::
  "(string list, (bool list \<times> string \<times> real option) list) engine" where
  "demo_blank = init_engine blank_rules (3 / 10)"

definition demo_unknown_texts :: "string list" where
  "demo_unknown_texts =
     [''geico insurance'', ''geico insurance'', ''state farm'', ''state farm'', ''acme'']"

definition demo_batch :: "txn list" where
  "demo_batch =
     [\<lparr>narration = ''corner shop'', amount = 12\<rparr>, \<lparr>narration = ''Uber ride'', amount = 28\<rparr>,
      \<lparr>narration = ''shop'', amount = 3\<rparr>]"

section \<open>Auxiliary facts\<close>

lemma is_space_lower_char: "is_space (lower_char c) = is_space c"
  by (simp add: is_space_def lower_char_def)

lemma py_lower_append: "py_lower (s @ t) = py_lower s @ py_lower t"
  by (simp add: py_lower_def)

lemma all_space_py_lower:
  "(\<forall>c \<in> set (py_lower s). is_space c) = (\<forall>c \<in> set s. is_space c)"
  by (simp add: py_lower_def is_space_lower_char)

lemma split_acc_Nil_iff:
  "split_acc w s = [] \<longleftrightarrow> w = [] \<and> (\<forall>c \<in> set s. is_space c)"
  by (induction s arbitrary: w) auto

lemma py_split_Nil_iff: "py_split s = [] \<longleftrightarrow> (\<forall>c \<in> set s. is_space c)"
  by (simp add: py_split_def split_acc_Nil_iff)

lemma score_pos_iff:
  "0 < score info t \<longleftrightarrow> (\<exists>kw \<in> set (keywords info). sublist kw t)"
  by (auto simp: score_def filter_empty_conv)

lemma set_build_matches:
  "set (build_matches cats t) =
     {(cat, weighted_score info t) | cat info. (cat, info) \<in> set cats \<and> 0 < score info t}"
  by (induction cats t rule: build_matches.induct) auto

lemma build_matches_Nil_iff:
  "build_matches cats t = [] \<longleftrightarrow> (\<forall>(cat, info) \<in> set cats. score info t = 0)"
  by (induction cats t rule: build_matches.induct) auto

lemma max_by_mem: "max_by b ps \<in> set (b # ps)"
  by (induction b ps rule: max_by.induct) auto

lemma max_by_start: "snd b \<le> snd (max_by b ps)"
proof (induction b ps rule: max_by.induct)
  case (1 best)
  then show ?case by simp
next
  case (2 best p ps)
  then show ?case by (cases "snd best < snd p") (simp_all add: less_le_trans [THEN less_imp_le])
qed

lemma max_by_ge: "p \<in> set (b # ps) \<Longrightarrow> snd p \<le> snd (max_by b ps)"
proof (induction b ps rule: max_by.induct)
  case (1 best)
  then show ?case by simp
next
  case (2 best q ps)
  show ?case
  proof (cases "snd best < snd q")
    case True
    have "snd q \<le> snd (max_by q ps)" by (rule max_by_start)
    with True 2 show ?thesis by auto
  next
    case False
    have "snd best \<le> snd (max_by best ps)" by (rule max_by_start)
    with False 2 show ?thesis by auto
  qed
qed


lemma keyword_match_no_match:
  "build_matches cats (py_lower text) = [] \<Longrightarrow> keyword_match cats text = Inr (''Unknown'', 0)"
  by (simp add: keyword_match_def)

lemma keyword_match_best:
  assumes "build_matches cats (py_lower text) \<noteq> []"
  shows "\<exists>cat info. (cat, info) \<in> set cats \<and> 0 < score info (py_lower text) \<and>
           (\<forall>(cat', info') \<in> set cats. 0 < score info' (py_lower text) \<longrightarrow>
               weighted_score info' (py_lower text) \<le> weighted_score info (py_lower text)) \<and>
           keyword_match cats text =
             (if length (py_split text) = 0 then Inl ZeroDivisionError
              else Inr (cat, weighted_score info (py_lower text) / real (length (py_split text))))"
proof -
  let ?t = "py_lower text"
  obtain m ms where ms: "build_matches cats ?t = m # ms"
    using assms by (cases "build_matches cats ?t") auto
  let ?b = "max_by m ms"
  have "?b \<in> set (build_matches cats ?t)"
    using max_by_mem [of m ms] by (simp add: ms)
  then obtain cat info where b: "?b = (cat, weighted_score info ?t)"
    and mem: "(cat, info) \<in> set cats" and pos: "0 < score info ?t"
    by (auto simp: set_build_matches)
  have ge: "weighted_score info' ?t \<le> weighted_score info ?t"
    if "(cat', info') \<in> set cats" "0 < score info' ?t" for cat' info'
  proof -
    have "(cat', weighted_score info' ?t) \<in> set (m # ms)"
      using that set_build_matches [of cats ?t] by (auto simp: ms [symmetric])
    from max_by_ge [OF this] show ?thesis by (simp add: b)
  qed
  have "keyword_match cats text =
      (if length (py_split text) = 0 then Inl ZeroDivisionError
       else Inr (cat, weighted_score info ?t / real (length (py_split text))))"
    by (simp add: keyword_match_def ms b Let_def)
  with mem pos ge show ?thesis by blast
qed


lemmas eval_defs =
  keyword_match_def py_lower_def lower_char_def py_split_def is_space_def score_def
  weighted_score_def get_weight_def sublist_code healthcare_rules_def fixture_rules_def
  default_weight_rules_def blank_rules_def

lemma score_mono:
  assumes "sublist t t'"
  shows "score info t \<le> score info t'"
proof -
  have "sublist kw t \<Longrightarrow> sublist kw t'" for kw
    using assms by (rule sublist_order.order_trans [rotated])
  then have "length (filter (\<lambda>kw. sublist kw t) xs) \<le> length (filter (\<lambda>kw. sublist kw t') xs)" for xs
    by (induction xs) auto
  then show ?thesis by (simp add: score_def)
qed

lemma weighted_score_nonneg:
  "0 \<le> get_weight info \<Longrightarrow> 0 \<le> weighted_score info t"
  by (simp add: weighted_score_def)

lemma weighted_score_mono:
  "0 \<le> get_weight info \<Longrightarrow> sublist t t' \<Longrightarrow> weighted_score info t \<le> weighted_score info t'"
  by (simp add: weighted_score_def score_mono mult_right_mono)

lemma divide_by_count_le:
  fixes w n :: real
  assumes "0 \<le> w" and "1 \<le> n"
  shows "w / n \<le> w"
proof -
  have "w / n \<le> w / 1"
    using assms by (intro divide_left_mono) auto
  then show ?thesis by simp
qed

lemma score_le_keywords: "score info t \<le> length (keywords info)"
  by (simp add: score_def)

lemma keyword_match_cases:
  obtains (no_kw) "build_matches cats (py_lower text) = []"
      "keyword_match cats text = Inr (''Unknown'', 0)"
  | (div0) cat info where "(cat, info) \<in> set cats" "0 < score info (py_lower text)"
      "py_split text = []" "keyword_match cats text = Inl ZeroDivisionError"
  | (found) cat info where "(cat, info) \<in> set cats" "0 < score info (py_lower text)"
      "py_split text \<noteq> []"
      "\<And>cat' info'. (cat', info') \<in> set cats \<Longrightarrow> 0 < score info' (py_lower text) \<Longrightarrow>
          weighted_score info' (py_lower text) \<le> weighted_score info (py_lower text)"
      "keyword_match cats text =
         Inr (cat, weighted_score info (py_lower text) / real (length (py_split text)))"
proof (cases "build_matches cats (py_lower text) = []")
  case True
  then show ?thesis using no_kw keyword_match_no_match by blast
next
  case False
  from keyword_match_best [OF this] obtain cat info where
    a: "(cat, info) \<in> set cats" "0 < score info (py_lower text)"
    and b: "\<forall>(cat', info') \<in> set cats. 0 < score info' (py_lower text) \<longrightarrow>
               weighted_score info' (py_lower text) \<le> weighted_score info (py_lower text)"
    and c: "keyword_match cats text =
             (if length (py_split text) = 0 then Inl ZeroDivisionError
              else Inr (cat, weighted_score info (py_lower text) / real (length (py_split text))))"
    by blast
  show ?thesis
  proof (cases "py_split text = []")
    case True
    with a c show ?thesis using div0 by simp
  next
    case False
    have b': "weighted_score info' (py_lower text) \<le> weighted_score info (py_lower text)"
      if "(cat', info') \<in> set cats" "0 < score info' (py_lower text)" for cat' info'
      using b that by fast
    have "keyword_match cats text =
         Inr (cat, weighted_score info (py_lower text) / real (length (py_split text)))"
      using c False by simp
    with a False b' show ?thesis by (rule found)
  qed
qed

lemma keyword_present_iff:
  "build_matches cats t \<noteq> [] \<longleftrightarrow>
     (\<exists>(cat, info) \<in> set cats. \<exists>kw \<in> set (keywords info). sublist kw t)"
  by (simp add: build_matches_Nil_iff score_pos_iff [symmetric] case_prod_beta)

lemma nonblank_keyword_forces_word:
  assumes "keywords_nonblank cats" and "(cat, info) \<in> set cats"
    and "0 < score info (py_lower text)"
  shows "py_split text \<noteq> []"
proof -
  from assms(3) obtain kw where kw: "kw \<in> set (keywords info)" "sublist kw (py_lower text)"
    by (auto simp: score_pos_iff)
  with assms(1,2) obtain ch where ch: "ch \<in> set kw" "\<not> is_space ch"
    by (fastforce simp: keywords_nonblank_def)
  from kw(2) have "set kw \<subseteq> set (py_lower text)" by (rule set_mono_sublist)
  with ch have "\<not> (\<forall>c \<in> set (py_lower text). is_space c)" by blast
  then show ?thesis by (simp add: py_split_Nil_iff all_space_py_lower)
qed

lemma keyword_match_conf_nonneg:
  assumes "weights_nonneg cats" and "keyword_match cats text = Inr (cat, conf)"
  shows "0 \<le> conf"
proof (cases cats "text" rule: keyword_match_cases)
  case no_kw
  with assms show ?thesis by simp
next
  case (div0 c info)
  with assms show ?thesis by simp
next
  case (found c info)
  have "0 \<le> get_weight info"
    using assms(1) found(1) by (auto simp: weights_nonneg_def)
  then have "0 \<le> weighted_score info (py_lower text)" by (rule weighted_score_nonneg)
  with assms(2) found(5) show ?thesis by auto
qed

lemma keyword_match_returns:
  assumes "keywords_nonblank cats"
  shows "\<exists>cat conf. keyword_match cats text = Inr (cat, conf)"
proof (cases cats "text" rule: keyword_match_cases)
  case no_kw
  then show ?thesis by simp
next
  case (div0 c info)
  with nonblank_keyword_forces_word [OF assms div0(1,2)] show ?thesis by simp
next
  case (found c info)
  then show ?thesis by simp
qed

lemmas demo_defs =
  demo_sklearn_def demo_fit_def demo_transform_def demo_dbscan_def demo_accepts_def
  demo_predict_def demo_proba_def demo_trained_def demo_untrained_def demo_blank_def
  init_engine_def demo_unknown_texts_def demo_batch_def

lemmas engine_defs =
  classify_batch_def ml_classify_def rule_row_def discover_new_categories_def
  train_ml_model_def cluster_texts_def py_str_int_def

lemma rule_based_rows_nth:
  "rule_based_rows cats df = Inr out \<Longrightarrow>
     length out = length df \<and>
     (\<forall>i < length df. \<exists>cat conf.
         keyword_match cats (narration (df ! i)) = Inr (cat, conf) \<and>
         out ! i = rule_row (df ! i) cat conf)"
proof (induction df arbitrary: out)
  case Nil
  then show ?case by simp
next
  case (Cons row rows)
  from Cons.prems obtain cat conf results where
    km: "keyword_match cats (narration row) = Inr (cat, conf)"
    and rec: "rule_based_rows cats rows = Inr results"
    and out: "out = rule_row row cat conf # results"
    by (auto split: sum.splits prod.splits)
  from Cons.IH [OF rec] have len: "length results = length rows"
    and nth: "\<forall>i < length rows. \<exists>cat conf.
         keyword_match cats (narration (rows ! i)) = Inr (cat, conf) \<and>
         results ! i = rule_row (rows ! i) cat conf"
    by simp_all
  have "\<exists>cat conf. keyword_match cats (narration ((row # rows) ! i)) = Inr (cat, conf) \<and>
         out ! i = rule_row ((row # rows) ! i) cat conf" if "i < length (row # rows)" for i
  proof (cases i)
    case 0
    with km out show ?thesis by simp
  next
    case (Suc j)
    with that nth out show ?thesis by simp
  qed
  with len out show ?case by simp
qed

lemma rule_based_rows_returns:
  "keywords_nonblank cats \<Longrightarrow> \<exists>out. rule_based_rows cats df = Inr out"
proof (induction df)
  case Nil
  then show ?case by simp
next
  case (Cons row rows)
  from keyword_match_returns [OF Cons.prems] obtain cat conf where
    "keyword_match cats (narration row) = Inr (cat, conf)" by blast
  moreover from Cons obtain results where "rule_based_rows cats rows = Inr results" by blast
  ultimately show ?case by simp
qed

lemma method_rule_row: "method (rule_row row cat conf) = ''rule-based''"
  by (simp add: rule_row_def)

lemma those_eq_Some: "those os = Some ys \<Longrightarrow> os = map Some ys"
proof (induction os arbitrary: ys)
  case Nil
  then show ?case by simp
next
  case (Cons a os)
  then show ?case by (cases a) (auto split: option.splits)
qed

lemma those_map_returns:
  "(\<forall>x \<in> set xs. f x \<noteq> None) \<Longrightarrow> \<exists>ys. those (map f xs) = Some ys"
  by (induction xs) auto

lemma masked_rows: "map fst (filter snd (zip rs (map P rs))) = filter P rs"
  by (induction rs) auto

lemma loc_assign_map:
  assumes "map f (filter P rs) = map Some ps" and "map g (filter P rs) = map Some qs"
  shows "loc_assign rs (map P rs) (zip ps qs) =
         map (\<lambda>r. if P r
                   then r\<lparr>category := the (f r), confidence := the (g r), method := ''ml-based''\<rparr>
                   else r) rs"
  using assms
proof (induction rs arbitrary: ps qs)
  case Nil
  then show ?case by simp
next
  case (Cons r rs)
  show ?case
  proof (cases "P r")
    case True
    with Cons.prems obtain p ps' q qs' where ps: "ps = p # ps'" and qs: "qs = q # qs'"
      and fp: "f r = Some p" and gq: "g r = Some q"
      and rest: "map f (filter P rs) = map Some ps'" "map g (filter P rs) = map Some qs'"
      by (cases ps; cases qs) auto
    from Cons.IH [OF rest] True fp gq show ?thesis by (simp add: ps qs)
  next
    case False
    with Cons.prems have rest: "map f (filter P rs) = map Some ps" "map g (filter P rs) = map Some qs"
      by simp_all
    from Cons.IH [OF rest] False show ?thesis by simp
  qed
qed

lemma masked_value:
  assumes "map f (filter P rs) = map Some ps" and "r \<in> set rs" and "P r"
  shows "\<exists>p. f r = Some p"
proof -
  have "f r \<in> set (map f (filter P rs))" using assms(2,3) by simp
  then have "f r \<in> set (map Some ps)" by (simp only: assms(1))
  then show ?thesis by auto
qed

lemma loc_assign_nth:
  assumes a: "map f (filter P rs) = map Some ps" and b: "map g (filter P rs) = map Some qs"
    and i: "i < length rs"
  shows "if P (rs ! i)
         then \<exists>p q. f (rs ! i) = Some p \<and> g (rs ! i) = Some q \<and>
                loc_assign rs (map P rs) (zip ps qs) ! i =
                  (rs ! i)\<lparr>category := p, confidence := q, method := ''ml-based''\<rparr>
         else loc_assign rs (map P rs) (zip ps qs) ! i = rs ! i"
proof (cases "P (rs ! i)")
  case True
  have mem: "rs ! i \<in> set rs" using i by simp
  from masked_value [OF a mem True] obtain p where p: "f (rs ! i) = Some p" by blast
  from masked_value [OF b mem True] obtain q where q: "g (rs ! i) = Some q" by blast
  have "loc_assign rs (map P rs) (zip ps qs) ! i =
      (rs ! i)\<lparr>category := p, confidence := q, method := ''ml-based''\<rparr>"
    using i True p q by (simp add: loc_assign_map [OF a b])
  with True p q show ?thesis by simp
next
  case False
  then show ?thesis using i by (simp add: loc_assign_map [OF a b])
qed

lemma length_loc_assign:
  assumes "map f (filter P rs) = map Some ps" and "map g (filter P rs) = map Some qs"
  shows "length (loc_assign rs (map P rs) (zip ps qs)) = length rs"
  by (simp add: loc_assign_map [OF assms])

lemma ml_classify_nth:
  assumes "ml_classify sk st rows (map P rows) = Inr out"
  shows "\<exists>v m. vectorizer st = Some v \<and> ml_classifier st = Some m \<and>
           length out = length rows \<and>
           (\<forall>i < length rows.
              if P (rows ! i)
              then \<exists>p q.
                     forest_predict sk m (tfidf_transform sk v (narration (rows ! i))) = Some p \<and>
                     forest_predict_proba sk m (tfidf_transform sk v (narration (rows ! i))) = Some q \<and>
                     out ! i = (rows ! i)\<lparr>category := p, confidence := q, method := ''ml-based''\<rparr>
              else out ! i = rows ! i)"
proof -
  from assms obtain v m ps qs where v: "vectorizer st = Some v" and m: "ml_classifier st = Some m"
    and ps: "those (map (forest_predict sk m)
               (map (\<lambda>r. tfidf_transform sk v (narration r)) (filter P rows))) = Some ps"
    and qs: "those (map (forest_predict_proba sk m)
               (map (\<lambda>r. tfidf_transform sk v (narration r)) (filter P rows))) = Some qs"
    and out: "out = loc_assign rows (map P rows) (zip ps qs)"
    by (auto simp: ml_classify_def masked_rows Let_def split: option.splits)
  let ?f = "\<lambda>r. forest_predict sk m (tfidf_transform sk v (narration r))"
  let ?g = "\<lambda>r. forest_predict_proba sk m (tfidf_transform sk v (narration r))"
  have a: "map ?f (filter P rows) = map Some ps"
    using those_eq_Some [OF ps] by (simp add: comp_def)
  have b: "map ?g (filter P rows) = map Some qs"
    using those_eq_Some [OF qs] by (simp add: comp_def)
  have "length out = length rows" by (simp add: out length_loc_assign [OF a b])
  moreover have "\<forall>i < length rows.
              if P (rows ! i)
              then \<exists>p q. ?f (rows ! i) = Some p \<and> ?g (rows ! i) = Some q \<and>
                     out ! i = (rows ! i)\<lparr>category := p, confidence := q, method := ''ml-based''\<rparr>
              else out ! i = rows ! i"
    unfolding out using loc_assign_nth [OF a b] by blast
  ultimately show ?thesis using v m by blast
qed

lemma ml_classify_returns:
  assumes "vectorizer st = Some v" and "ml_classifier st = Some m"
    and "\<forall>r \<in> set rows. P r \<longrightarrow>
           forest_predict sk m (tfidf_transform sk v (narration r)) \<noteq> None \<and>
           forest_predict_proba sk m (tfidf_transform sk v (narration r)) \<noteq> None"
  shows "\<exists>out. ml_classify sk st rows (map P rows) = Inr out"
proof -
  let ?X = "map (\<lambda>r. tfidf_transform sk v (narration r)) (filter P rows)"
  have "\<forall>x \<in> set ?X. forest_predict sk m x \<noteq> None" using assms(3) by auto
  then obtain ps where ps: "those (map (forest_predict sk m) ?X) = Some ps"
    using those_map_returns by blast
  have "\<forall>x \<in> set ?X. forest_predict_proba sk m x \<noteq> None" using assms(3) by auto
  then obtain qs where qs: "those (map (forest_predict_proba sk m) ?X) = Some qs"
    using those_map_returns by blast
  show ?thesis
    using assms(1,2) ps qs by (simp add: ml_classify_def masked_rows Let_def)
qed

lemma narration_rule_rows:
  "rule_based_rows cats df = Inr rows \<Longrightarrow> map narration rows = map narration df"
proof (induction df arbitrary: rows)
  case Nil
  then show ?case by simp
next
  case (Cons row df)
  then show ?case by (auto simp: rule_row_def split: sum.splits prod.splits)
qed

lemma nested_if_cases:
  assumes "(if A then (if B then x else if C then y else z) else z) = r"
  obtains (off) "\<not> A" "z = r" | (empty) "A" "B" "x = r"
    | (idle) "A" "\<not> B" "\<not> C" "z = r" | (run) "A" "\<not> B" "C" "y = r"
  using assms by (cases A; cases B; cases C) auto

section \<open>Properties of keyword_match\<close>

text \<open>
  Claim C1 (as stated): for every rule table and text, the confidence returned by
  \<open>keyword_match\<close> lies in [0,1]. The source divides the weighted count by the word
  count and does not clip: with weight 1.5 the one-word text \<^verbatim>\<open>pharmacy\<close> gets 1.5.
\<close>

theorem confidence_above_one_counterexample:
  "keyword_match healthcare_rules ''pharmacy'' = Inr (''Healthcare'', 3 / 2) \<and> \<not> (3 / 2 \<le> (1::real))"
  by (simp add: eval_defs)

text \<open>
  Claim C1 (amended): for every rule table with non-negative weights and every text on
  which \<open>keyword_match\<close> returns, the confidence is at least 0; it is 0 with category
  Unknown, or at most the number of keywords of the returned category times its weight.
  No bound by 1 holds.
\<close>

theorem keyword_match_confidence_bounds:
  assumes "weights_nonneg cats" and "keyword_match cats text = Inr (cat, conf)"
  shows "0 \<le> conf \<and>
         ((cat = ''Unknown'' \<and> conf = 0) \<or>
          (\<exists>info. (cat, info) \<in> set cats \<and> conf \<le> real (length (keywords info)) * get_weight info))"
proof (cases cats "text" rule: keyword_match_cases)
  case no_kw
  with assms show ?thesis by simp
next
  case (div0 c info)
  with assms show ?thesis by simp
next
  case (found c info)
  let ?n = "real (length (py_split text))"
  let ?w = "weighted_score info (py_lower text)"
  have w: "0 \<le> get_weight info"
    using assms(1) found(1) by (auto simp: weights_nonneg_def)
  have n: "1 \<le> ?n" using found(3) by (cases "py_split text") auto
  have eq: "cat = c" "conf = ?w / ?n" using assms(2) found(5) by auto
  have w0: "0 \<le> ?w" using w by (rule weighted_score_nonneg)
  have "?w / ?n \<le> ?w" using w0 n by (rule divide_by_count_le)
  also have "?w \<le> real (length (keywords info)) * get_weight info"
    unfolding weighted_score_def using w score_le_keywords [of info "py_lower text"]
    by (intro mult_right_mono) auto
  finally have "conf \<le> real (length (keywords info)) * get_weight info" by (simp add: eq)
  moreover have "0 \<le> conf" using w0 n by (simp add: eq)
  ultimately show ?thesis using found(1) eq by blast
qed

theorem keyword_match_confidence_bounds_witness:
  "weights_nonneg healthcare_rules \<and>
   keyword_match healthcare_rules ''pharmacy'' = Inr (''Healthcare'', 3 / 2) \<and>
   (0::real) \<le> 3 / 2 \<and>
   (\<exists>info. (''Healthcare'', info) \<in> set healthcare_rules \<and>
        3 / 2 \<le> real (length (keywords info)) * get_weight info)"
proof -
  have h1: "weights_nonneg healthcare_rules"
    by (simp add: weights_nonneg_def healthcare_rules_def get_weight_def)
  have h2: "keyword_match healthcare_rules ''pharmacy'' = Inr (''Healthcare'', 3 / 2)"
    by (simp add: eval_defs)
  from keyword_match_confidence_bounds [OF h1 h2] h1 h2 show ?thesis by simp
qed

text \<open>
  Claim C2: for every rule table and every text that contains none of any category's
  keywords, \<open>keyword_match\<close> returns category Unknown with confidence 0. (The source
  returns this pair; it computes no set of matched keywords.)
\<close>

theorem keyword_match_no_keyword:
  assumes "\<forall>(cat, info) \<in> set cats. \<forall>kw \<in> set (keywords info). \<not> sublist kw (py_lower text)"
  shows "keyword_match cats text = Inr (''Unknown'', 0)"
proof -
  have "build_matches cats (py_lower text) = []"
    using assms keyword_present_iff [of cats "py_lower text"] by blast
  then show ?thesis by (rule keyword_match_no_match)
qed

theorem keyword_match_no_keyword_witness:
  "keyword_match fixture_rules ''payment to random merchant xyz123'' = Inr (''Unknown'', 0)"
proof -
  have "\<forall>(cat, info) \<in> set fixture_rules. \<forall>kw \<in> set (keywords info).
          \<not> sublist kw (py_lower ''payment to random merchant xyz123'')"
    by (simp add: eval_defs)
  then show ?thesis by (rule keyword_match_no_keyword)
qed

text \<open>
  Claim C7 (as stated): extending the text with one more matching keyword never lowers
  the confidence. The word count grows with the text: \<^verbatim>\<open>uber\<close> scores 1/1, and
  \<^verbatim>\<open>uber pharmacy\<close> scores 1.5/2.
\<close>

theorem monotonicity_counterexample:
  "keyword_match fixture_rules ''uber'' = Inr (''Transportation'', 1) \<and>
   keyword_match fixture_rules (''uber'' @ '' '' @ ''pharmacy'') = Inr (''Healthcare'', 3 / 4) \<and>
   \<not> ((1::real) \<le> 3 / 4)"
  by (simp add: eval_defs)

text \<open>
  Claim C7 (amended): for every rule table with non-negative weights, extending the text
  by a blank and one more keyword never lowers the winning weighted score, that is the
  confidence times the word count, whenever \<open>keyword_match\<close> returns on both texts.
\<close>

theorem keyword_match_raw_score_mono:
  assumes nonneg: "weights_nonneg cats"
    and kw: "(c0, info0) \<in> set cats" "kw \<in> set (keywords info0)"
    and r: "keyword_match cats text = Inr (cat, conf)"
    and r': "keyword_match cats (text @ '' '' @ kw) = Inr (cat', conf')"
  shows "conf * real (length (py_split text))
           \<le> conf' * real (length (py_split (text @ '' '' @ kw)))"
proof -
  let ?t = "py_lower text" and ?t' = "py_lower (text @ '' '' @ kw)"
  let ?n = "real (length (py_split text))" and ?n' = "real (length (py_split (text @ '' '' @ kw)))"
  have sub: "sublist ?t ?t'" by (simp add: py_lower_append)
  from nonneg r' have c': "0 \<le> conf'" by (rule keyword_match_conf_nonneg)
  show ?thesis
  proof (cases cats "text" rule: keyword_match_cases)
    case no_kw
    with r c' show ?thesis by simp
  next
    case (div0 c info)
    with r show ?thesis by simp
  next
    case (found c info)
    have w: "0 \<le> get_weight info"
      using nonneg found(1) by (auto simp: weights_nonneg_def)
    have n0: "?n \<noteq> 0" using found(3) by simp
    have "conf = weighted_score info ?t / ?n" using r found(5) by simp
    then have lhs: "conf * ?n = weighted_score info ?t" using n0 by simp
    have pos': "0 < score info ?t'"
      using found(2) score_mono [OF sub, of info] by simp
    have "weighted_score info ?t \<le> weighted_score info ?t'"
      using w sub by (rule weighted_score_mono)
    also have "weighted_score info ?t' \<le> conf' * ?n'"
    proof (cases cats "text @ '' '' @ kw" rule: keyword_match_cases)
      case no_kw
      with found(1) pos' show ?thesis by (auto simp: build_matches_Nil_iff)
    next
      case (div0 c2 info2)
      with r' show ?thesis by simp
    next
      case (found c2 info2)
      have n0': "?n' \<noteq> 0" using found(3) by simp
      have "conf' = weighted_score info2 ?t' / ?n'" using r' found(5) by simp
      then have "conf' * ?n' = weighted_score info2 ?t'" using n0' by simp
      with found(4) [OF \<open>(c, info) \<in> set cats\<close> pos'] show ?thesis by simp
    qed
    finally show ?thesis by (simp add: lhs)
  qed
qed

theorem keyword_match_raw_score_mono_witness:
  "weights_nonneg fixture_rules \<and>
   keyword_match fixture_rules ''uber'' = Inr (''Transportation'', 1) \<and>
   keyword_match fixture_rules (''uber'' @ '' '' @ ''pharmacy'') = Inr (''Healthcare'', 3 / 4) \<and>
   (1::real) * real (length (py_split ''uber''))
      \<le> 3 / 4 * real (length (py_split (''uber'' @ '' '' @ ''pharmacy'')))"
proof -
  have h1: "weights_nonneg fixture_rules"
    by (simp add: weights_nonneg_def fixture_rules_def get_weight_def)
  have h2: "(''Healthcare'',
       \<lparr>keywords = [''pharmacy'', ''doctor'', ''hospital'', ''medical''], weight = Some (3 / 2)\<rparr>)
       \<in> set fixture_rules"
    by (simp add: fixture_rules_def)
  have h3: "''pharmacy'' \<in> set (keywords
       \<lparr>keywords = [''pharmacy'', ''doctor'', ''hospital'', ''medical''], weight = Some (3 / 2)\<rparr>)"
    by simp
  have h4: "keyword_match fixture_rules ''uber'' = Inr (''Transportation'', 1)"
    by (simp add: eval_defs)
  have h5: "keyword_match fixture_rules (''uber'' @ '' '' @ ''pharmacy'') = Inr (''Healthcare'', 3 / 4)"
    by (simp add: eval_defs)
  from keyword_match_raw_score_mono [OF h1 h2 h3 h4 h5] h1 h4 h5 show ?thesis by blast
qed

text \<open>
  Claim C8 (as stated): for every text in which a keyword occurs, \<open>keyword_match\<close> returns
  the best score divided by the word count. With the blank as a keyword, the keyword
  occurs in the text made of one blank, which has no word: the division raises.
\<close>

theorem keyword_match_blank_keyword_counterexample:
  "sublist '' '' (py_lower '' '') \<and> length (py_split '' '') = 0 \<and>
   keyword_match blank_rules '' '' = Inl ZeroDivisionError"
  by (simp add: eval_defs)

text \<open>
  Claim C8 (amended): for every text that has at least one whitespace-separated word and
  in whose lower-cased form a keyword occurs, \<open>keyword_match\<close> selects a category whose
  score, the number of its keywords present in the lower-cased text times its weight
  (1.0 when missing), is the highest among the categories with a keyword present (among
  all categories when no weight is negative), and returns that score divided by the number
  of words. The Healthcare example of the specification yields 0.375; matching ignores
  case, and a category without a weight counts each keyword once.
\<close>

theorem keyword_match_selects_best:
  "(let W = (\<lambda>info. real (length (filter (\<lambda>kw. sublist kw (py_lower text)) (keywords info)))
                        * (case weight info of None \<Rightarrow> 1 | Some w \<Rightarrow> w))
    in py_split text \<noteq> [] \<and>
       (\<exists>(cat, info) \<in> set cats. \<exists>kw \<in> set (keywords info). sublist kw (py_lower text)) \<longrightarrow>
       (\<exists>cat info. (cat, info) \<in> set cats \<and>
          (\<exists>kw \<in> set (keywords info). sublist kw (py_lower text)) \<and>
          (\<forall>(cat', info') \<in> set cats.
             (\<exists>kw \<in> set (keywords info'). sublist kw (py_lower text)) \<longrightarrow> W info' \<le> W info) \<and>
          ((\<forall>(c, i) \<in> set cats. 0 \<le> (case weight i of None \<Rightarrow> 1 | Some w \<Rightarrow> w)) \<longrightarrow>
             (\<forall>(cat', info') \<in> set cats. W info' \<le> W info)) \<and>
          keyword_match cats text = Inr (cat, W info / real (length (py_split text)))))
   \<and> py_lower ''CVS Pharmacy'' = ''cvs pharmacy''
   \<and> keyword_match healthcare_rules ''cvs pharmacy prescription pickup''
        = Inr (''Healthcare'', 375 / 1000)
   \<and> keyword_match default_weight_rules ''WALMART Grocery pharmacy run''
        = Inr (''Groceries'', 1 / 2)"
proof (intro conjI)
  let ?t = "py_lower text"
  let ?W = "\<lambda>info. real (length (filter (\<lambda>kw. sublist kw ?t) (keywords info)))
                        * (case weight info of None \<Rightarrow> 1 | Some w \<Rightarrow> w)"
  have W: "?W info = weighted_score info ?t" for info
    by (simp add: weighted_score_def score_def get_weight_def)
  have general: "\<exists>cat info. (cat, info) \<in> set cats \<and>
          (\<exists>kw \<in> set (keywords info). sublist kw ?t) \<and>
          (\<forall>(cat', info') \<in> set cats.
             (\<exists>kw \<in> set (keywords info'). sublist kw ?t) \<longrightarrow> ?W info' \<le> ?W info) \<and>
          ((\<forall>(c, i) \<in> set cats. 0 \<le> (case weight i of None \<Rightarrow> 1 | Some w \<Rightarrow> w)) \<longrightarrow>
             (\<forall>(cat', info') \<in> set cats. ?W info' \<le> ?W info)) \<and>
          keyword_match cats text = Inr (cat, ?W info / real (length (py_split text)))"
    if words: "py_split text \<noteq> []"
      and occurs: "\<exists>(cat, info) \<in> set cats. \<exists>kw \<in> set (keywords info). sublist kw ?t"
  proof -
    from occurs have ne: "build_matches cats ?t \<noteq> []"
      by (simp add: keyword_present_iff)
    from keyword_match_best [OF ne] obtain cat info where
      a: "(cat, info) \<in> set cats" "0 < score info ?t"
      and b: "\<forall>(cat', info') \<in> set cats. 0 < score info' ?t \<longrightarrow>
                 weighted_score info' ?t \<le> weighted_score info ?t"
      and c: "keyword_match cats text =
               (if length (py_split text) = 0 then Inl ZeroDivisionError
                else Inr (cat, weighted_score info ?t / real (length (py_split text))))"
      by blast
    have a2: "\<exists>kw \<in> set (keywords info). sublist kw ?t"
      using a(2) by (simp add: score_pos_iff)
    have b2: "?W info' \<le> ?W info"
      if "(cat', info') \<in> set cats" "\<exists>kw \<in> set (keywords info'). sublist kw ?t" for cat' info'
    proof -
      from that(2) have "0 < score info' ?t" by (simp add: score_pos_iff)
      with b that(1) have "weighted_score info' ?t \<le> weighted_score info ?t" by fast
      then show ?thesis by (simp only: W)
    qed
    have d: "?W info' \<le> ?W info"
      if nn: "\<forall>(c, i) \<in> set cats. 0 \<le> (case weight i of None \<Rightarrow> 1 | Some w \<Rightarrow> w)"
        and mem: "(cat', info') \<in> set cats" for cat' info'
    proof (cases "\<exists>kw \<in> set (keywords info'). sublist kw ?t")
      case True
      with mem show ?thesis by (rule b2)
    next
      case False
      then have "filter (\<lambda>kw. sublist kw ?t) (keywords info') = []"
        by (simp add: filter_empty_conv)
      then have z: "?W info' = 0" by simp
      from nn a(1) have "0 \<le> (case weight info of None \<Rightarrow> 1 | Some w \<Rightarrow> w)" by fast
      then have nn0: "0 \<le> ?W info" by simp
      show ?thesis unfolding z by (rule nn0)
    qed
    have e: "keyword_match cats text = Inr (cat, ?W info / real (length (py_split text)))"
      using c words by (simp only: W) simp
    from a(1) a2 b2 d e show ?thesis by blast
  qed
  then show "let W = ?W
    in py_split text \<noteq> [] \<and>
       (\<exists>(cat, info) \<in> set cats. \<exists>kw \<in> set (keywords info). sublist kw ?t) \<longrightarrow>
       (\<exists>cat info. (cat, info) \<in> set cats \<and>
          (\<exists>kw \<in> set (keywords info). sublist kw ?t) \<and>
          (\<forall>(cat', info') \<in> set cats.
             (\<exists>kw \<in> set (keywords info'). sublist kw ?t) \<longrightarrow> W info' \<le> W info) \<and>
          ((\<forall>(c, i) \<in> set cats. 0 \<le> (case weight i of None \<Rightarrow> 1 | Some w \<Rightarrow> w)) \<longrightarrow>
             (\<forall>(cat', info') \<in> set cats. W info' \<le> W info)) \<and>
          keyword_match cats text = Inr (cat, W info / real (length (py_split text))))"
    unfolding Let_def by blast
next
  show "py_lower ''CVS Pharmacy'' = ''cvs pharmacy''"
    by (simp add: py_lower_def lower_char_def)
next
  show "keyword_match healthcare_rules ''cvs pharmacy prescription pickup''
        = Inr (''Healthcare'', 375 / 1000)"
    by (simp add: eval_defs)
next
  show "keyword_match default_weight_rules ''WALMART Grocery pharmacy run''
        = Inr (''Groceries'', 1 / 2)"
    by (simp add: eval_defs)
qed

theorem keyword_match_selects_best_witness:
  "py_split ''WALMART Grocery pharmacy run'' = [''WALMART'', ''Grocery'', ''pharmacy'', ''run''] \<and>
   sublist ''walmart'' (py_lower ''WALMART Grocery pharmacy run'') \<and>
   sublist ''grocery'' (py_lower ''WALMART Grocery pharmacy run'') \<and>
   sublist ''pharmacy'' (py_lower ''WALMART Grocery pharmacy run'') \<and>
   (\<exists>cat info. (cat, info) \<in> set default_weight_rules \<and>
       keyword_match default_weight_rules ''WALMART Grocery pharmacy run'' =
         Inr (cat,
              real (length (filter (\<lambda>kw. sublist kw (py_lower ''WALMART Grocery pharmacy run''))
                              (keywords info)))
                * (case weight info of None \<Rightarrow> 1 | Some w \<Rightarrow> w)
                / real (length (py_split ''WALMART Grocery pharmacy run'')))) \<and>
   keyword_match default_weight_rules ''WALMART Grocery pharmacy run''
     = Inr (''Groceries'', 2 * 1 / 4)"
proof -
  let ?text = "''WALMART Grocery pharmacy run''"
  have sp: "py_split ?text = [''WALMART'', ''Grocery'', ''pharmacy'', ''run'']"
    by (simp add: eval_defs)
  have k1: "sublist ''walmart'' (py_lower ?text)" by (simp add: eval_defs)
  have k2: "sublist ''grocery'' (py_lower ?text)" by (simp add: eval_defs)
  have k3: "sublist ''pharmacy'' (py_lower ?text)" by (simp add: eval_defs)
  have words: "py_split ?text \<noteq> []" by (simp add: sp)
  have occurs: "\<exists>(cat, info) \<in> set default_weight_rules. \<exists>kw \<in> set (keywords info).
       sublist kw (py_lower ?text)"
    using k1 by (auto simp: default_weight_rules_def)
  from keyword_match_selects_best [of ?text default_weight_rules] words occurs
  have "\<exists>cat info. (cat, info) \<in> set default_weight_rules \<and>
       keyword_match default_weight_rules ?text =
         Inr (cat,
              real (length (filter (\<lambda>kw. sublist kw (py_lower ?text)) (keywords info)))
                * (case weight info of None \<Rightarrow> 1 | Some w \<Rightarrow> w)
                / real (length (py_split ?text)))"
    unfolding Let_def by blast
  moreover have "keyword_match default_weight_rules ?text = Inr (''Groceries'', 2 * 1 / 4)"
    by (simp add: eval_defs)
  ultimately show ?thesis using sp k1 k2 k3 by blast
qed

text \<open>
  Claim C10: when every keyword of the rule table has a character that is not whitespace,
  \<open>keyword_match\<close> returns on every text: the division is reached only when a keyword
  occurs in the text, and then the text has a word. On an empty or all-whitespace text it
  returns Unknown with confidence 0.
\<close>

theorem keyword_match_total:
  assumes "keywords_nonblank cats"
  shows "(\<exists>cat conf. keyword_match cats text = Inr (cat, conf)) \<and>
         ((\<forall>ch \<in> set text. is_space ch) \<longrightarrow> keyword_match cats text = Inr (''Unknown'', 0))"
proof (cases cats "text" rule: keyword_match_cases)
  case no_kw
  then show ?thesis by simp
next
  case (div0 c info)
  with nonblank_keyword_forces_word [OF assms div0(1,2)] show ?thesis by simp
next
  case (found c info)
  then show ?thesis by (auto simp: py_split_Nil_iff)
qed

theorem keyword_match_total_witness:
  "keywords_nonblank fixture_rules \<and>
   keyword_match fixture_rules ''  '' = Inr (''Unknown'', 0) \<and>
   keyword_match fixture_rules ''Uber ride'' = Inr (''Transportation'', 1 / 2)"
proof -
  have h: "keywords_nonblank fixture_rules"
    by (simp add: keywords_nonblank_def fixture_rules_def is_space_def)
  have sp: "\<forall>ch \<in> set ''  ''. is_space ch" by (simp add: is_space_def)
  from keyword_match_total [OF h, of "''  ''"] sp
  have "keyword_match fixture_rules ''  '' = Inr (''Unknown'', 0)" by blast
  moreover have "keyword_match fixture_rules ''Uber ride'' = Inr (''Transportation'', 1 / 2)"
    by (simp add: eval_defs)
  ultimately show ?thesis using h by blast
qed

section \<open>Properties of the engine\<close>

text \<open>
  Claim C3: every row that batch classification produces carries
  needs_review = (confidence < review_threshold). What the source does: the rows of
  \<open>classify_batch\<close> have the columns narration, amount, category, confidence and method
  and no other; on the example of the specification the whole result is the row below.
\<close>

theorem classify_batch_result_columns:
  "classify_batch demo_sklearn demo_untrained
      [\<lparr>narration = ''cvs pharmacy prescription pickup'', amount = 45\<rparr>] =
     Inr [\<lparr>narration = ''cvs pharmacy prescription pickup'', amount = 45,
            category = ''Healthcare'', confidence = 3 / 8, method = ''rule-based''\<rparr>]"
  by (simp add: engine_defs demo_defs eval_defs)

text \<open>
  Claim C4: \<open>discover_new_categories\<close> leaves the fitted vectorizer of the engine as it
  was. What the source does: with five or more texts, the call returns the engine with its
  vectorizer refitted on the texts given to discovery (the classifier is kept), so a later
  \<open>classify_batch\<close> transforms with the discovery fit.
\<close>

theorem discover_refits_engine_vectorizer:
  assumes "5 \<le> length texts" and "tfidf_fit sk texts = Some v"
  shows "\<exists>found. discover_new_categories sk st texts = Inr (st\<lparr>vectorizer := Some v\<rparr>, found)"
  using assms by (simp add: discover_new_categories_def Let_def)

theorem discover_refits_engine_vectorizer_witness:
  "5 \<le> length demo_unknown_texts \<and>
   tfidf_fit demo_sklearn demo_unknown_texts
     = Some [''geico'', ''insurance'', ''state'', ''farm'', ''acme''] \<and>
   vectorizer demo_trained = Some [''corner'', ''shop''] \<and>
   (\<exists>found. discover_new_categories demo_sklearn demo_trained demo_unknown_texts =
      Inr (demo_trained\<lparr>vectorizer := Some [''geico'', ''insurance'', ''state'', ''farm'', ''acme'']\<rparr>,
           found)) \<and>
   classify_batch demo_sklearn demo_trained demo_batch =
     Inr [\<lparr>narration = ''corner shop'', amount = 12, category = ''Groceries'',
            confidence = 1, method = ''ml-based''\<rparr>,
          \<lparr>narration = ''Uber ride'', amount = 28, category = ''Transportation'',
            confidence = 1 / 2, method = ''rule-based''\<rparr>,
          \<lparr>narration = ''shop'', amount = 3, category = ''Other'',
            confidence = 1 / 2, method = ''ml-based''\<rparr>] \<and>
   classify_batch demo_sklearn
       (demo_trained\<lparr>vectorizer := Some [''geico'', ''insurance'', ''state'', ''farm'', ''acme'']\<rparr>)
       demo_batch = Inl ValueError"
proof -
  have h1: "5 \<le> length demo_unknown_texts" by (simp add: demo_defs)
  have h2: "tfidf_fit demo_sklearn demo_unknown_texts
     = Some [''geico'', ''insurance'', ''state'', ''farm'', ''acme'']"
    by (simp add: demo_defs eval_defs)
  have v: "vectorizer demo_trained = Some [''corner'', ''shop'']" by (simp add: demo_defs)
  have before: "classify_batch demo_sklearn demo_trained demo_batch =
     Inr [\<lparr>narration = ''corner shop'', amount = 12, category = ''Groceries'',
            confidence = 1, method = ''ml-based''\<rparr>,
          \<lparr>narration = ''Uber ride'', amount = 28, category = ''Transportation'',
            confidence = 1 / 2, method = ''rule-based''\<rparr>,
          \<lparr>narration = ''shop'', amount = 3, category = ''Other'',
            confidence = 1 / 2, method = ''ml-based''\<rparr>]"
    by (simp add: engine_defs demo_defs eval_defs)
  have after: "classify_batch demo_sklearn
       (demo_trained\<lparr>vectorizer := Some [''geico'', ''insurance'', ''state'', ''farm'', ''acme'']\<rparr>)
       demo_batch = Inl ValueError"
    by (simp add: engine_defs demo_defs eval_defs)
  from discover_refits_engine_vectorizer [OF h1 h2, of demo_trained] h1 h2 v before after
  show ?thesis by blast
qed

text \<open>
  Claim C5 (as stated): rows are overwritten by the fallback classifier if and only if a
  model is present and the rule-based confidence is below the threshold, the others stay,
  and without a model every row stays rule-based and no error is raised. With a blank
  keyword and no model, a narration made of one blank makes the call raise.
\<close>

theorem classify_batch_blank_keyword_counterexample:
  "ml_classifier demo_blank = None \<and>
   classify_batch demo_sklearn demo_blank [\<lparr>narration = '' '', amount = 1\<rparr>]
     = Inl ZeroDivisionError"
  by (simp add: engine_defs demo_defs eval_defs)

text \<open>
  Claim C5 (amended): whenever \<open>classify_batch\<close> returns, it returns one row for each
  input row; the category, confidence and method of a row are the prediction and the
  probability of the fallback classifier for its narration, and ml-based, if and only if
  a classifier is present and the rule-based confidence of that row is strictly below
  \<open>unknown_threshold\<close>; every other row is its rule-based row, unchanged. When no
  classifier is present and no keyword is blank, the call returns and every row is
  rule-based. With a classifier, the call returns when no keyword is blank, the batch is
  not empty, the vectorizer is fitted and the classifier accepts the feature rows.
\<close>

theorem classify_batch_fallback_frame:
  "(classify_batch sk st df = Inr out \<longrightarrow>
      length out = length df \<and>
      (\<forall>i < length df. \<exists>cat conf.
          keyword_match (categories st) (narration (df ! i)) = Inr (cat, conf) \<and>
          (if ml_classifier st \<noteq> None \<and> conf < unknown_threshold st
           then \<exists>v m p q. vectorizer st = Some v \<and> ml_classifier st = Some m \<and>
                  forest_predict sk m (tfidf_transform sk v (narration (df ! i))) = Some p \<and>
                  forest_predict_proba sk m (tfidf_transform sk v (narration (df ! i))) = Some q \<and>
                  out ! i = \<lparr>narration = narration (df ! i), amount = amount (df ! i),
                              category = p, confidence = q, method = ''ml-based''\<rparr>
           else out ! i = \<lparr>narration = narration (df ! i), amount = amount (df ! i),
                              category = cat, confidence = conf, method = ''rule-based''\<rparr>)))
   \<and> (keywords_nonblank (categories st) \<and> ml_classifier st = None \<longrightarrow>
        (\<exists>res. classify_batch sk st df = Inr res \<and> length res = length df \<and>
               (\<forall>r \<in> set res. method r = ''rule-based'')))
   \<and> (keywords_nonblank (categories st) \<and> df \<noteq> [] \<and>
        vectorizer st = Some v0 \<and> ml_classifier st = Some m0 \<and>
        (\<forall>row \<in> set df.
            forest_predict sk m0 (tfidf_transform sk v0 (narration row)) \<noteq> None \<and>
            forest_predict_proba sk m0 (tfidf_transform sk v0 (narration row)) \<noteq> None)
        \<longrightarrow> (\<exists>res. classify_batch sk st df = Inr res))"
proof (intro conjI impI)
  assume ret: "classify_batch sk st df = Inr out"
  then obtain rows where rows: "rule_based_rows (categories st) df = Inr rows"
    by (auto simp: classify_batch_def split: sum.splits)
  note nth = rule_based_rows_nth [OF rows]
  let ?low = "\<lambda>r. confidence r < unknown_threshold st"
  have eq: "(if ml_classifier st \<noteq> None then
               (if rows = [] then Inl KeyError
                else if 0 < length (filter (\<lambda>b. b) (map ?low rows))
                     then ml_classify sk st rows (map ?low rows)
                     else Inr rows)
             else Inr rows) = Inr out"
    using ret by (simp only: classify_batch_def rows sum.case Let_def)
  consider (none) "ml_classifier st = None" "out = rows"
    | (nolow) "ml_classifier st \<noteq> None" "filter (\<lambda>b. b) (map ?low rows) = []" "out = rows"
    | (low) "ml_classifier st \<noteq> None" "ml_classify sk st rows (map ?low rows) = Inr out"
    using eq
  proof (cases rule: nested_if_cases)
    case off
    from off(1) have n: "ml_classifier st = None" by simp
    from off(2) have o: "out = rows" by simp
    from n o show ?thesis by (rule that(1))
  next
    case empty
    from empty(3) show ?thesis by simp
  next
    case idle
    from idle(3) have f: "filter (\<lambda>b. b) (map ?low rows) = []"
      by (simp only: not_gr_zero length_0_conv)
    from idle(4) have o: "out = rows" by simp
    from idle(1) f o show ?thesis by (rule that(2))
  next
    case run
    from run(1) run(4) show ?thesis by (rule that(3))
  qed
  note cases = this
  show "length out = length df"
  proof (cases rule: cases)
    case none
    with nth show ?thesis by simp
  next
    case nolow
    with nth show ?thesis by simp
  next
    case low
    from ml_classify_nth [OF low(2)] nth show ?thesis by auto
  qed
  show "\<forall>i < length df. \<exists>cat conf.
          keyword_match (categories st) (narration (df ! i)) = Inr (cat, conf) \<and>
          (if ml_classifier st \<noteq> None \<and> conf < unknown_threshold st
           then \<exists>v m p q. vectorizer st = Some v \<and> ml_classifier st = Some m \<and>
                  forest_predict sk m (tfidf_transform sk v (narration (df ! i))) = Some p \<and>
                  forest_predict_proba sk m (tfidf_transform sk v (narration (df ! i))) = Some q \<and>
                  out ! i = \<lparr>narration = narration (df ! i), amount = amount (df ! i),
                              category = p, confidence = q, method = ''ml-based''\<rparr>
           else out ! i = \<lparr>narration = narration (df ! i), amount = amount (df ! i),
                              category = cat, confidence = conf, method = ''rule-based''\<rparr>)"
  proof (intro allI impI)
    fix i assume i: "i < length df"
    with nth obtain cat conf where
      km: "keyword_match (categories st) (narration (df ! i)) = Inr (cat, conf)"
      and ri: "rows ! i = \<lparr>narration = narration (df ! i), amount = amount (df ! i),
                              category = cat, confidence = conf, method = ''rule-based''\<rparr>"
      unfolding rule_row_def by blast
    have conf: "confidence (rows ! i) = conf" and narr: "narration (rows ! i) = narration (df ! i)"
      by (simp_all add: ri)
    have ilen: "i < length rows" using i nth by simp
    have "if ml_classifier st \<noteq> None \<and> conf < unknown_threshold st
           then \<exists>v m p q. vectorizer st = Some v \<and> ml_classifier st = Some m \<and>
                  forest_predict sk m (tfidf_transform sk v (narration (df ! i))) = Some p \<and>
                  forest_predict_proba sk m (tfidf_transform sk v (narration (df ! i))) = Some q \<and>
                  out ! i = \<lparr>narration = narration (df ! i), amount = amount (df ! i),
                              category = p, confidence = q, method = ''ml-based''\<rparr>
           else out ! i = \<lparr>narration = narration (df ! i), amount = amount (df ! i),
                              category = cat, confidence = conf, method = ''rule-based''\<rparr>"
    proof (cases rule: cases)
      case none
      with ri show ?thesis by simp
    next
      case nolow
      have "\<not> ?low (rows ! i)"
        using nolow(2) ilen by (auto simp: filter_empty_conv)
      with nolow(3) ri conf show ?thesis by simp
    next
      case low
      from ml_classify_nth [OF low(2)] obtain v m where
        v: "vectorizer st = Some v" and m: "ml_classifier st = Some m"
        and each: "\<forall>i < length rows.
              if ?low (rows ! i)
              then \<exists>p q.
                     forest_predict sk m (tfidf_transform sk v (narration (rows ! i))) = Some p \<and>
                     forest_predict_proba sk m (tfidf_transform sk v (narration (rows ! i))) = Some q \<and>
                     out ! i = (rows ! i)\<lparr>category := p, confidence := q, method := ''ml-based''\<rparr>
              else out ! i = rows ! i"
        by blast
      from each ilen have at_i: "if ?low (rows ! i)
              then \<exists>p q.
                     forest_predict sk m (tfidf_transform sk v (narration (rows ! i))) = Some p \<and>
                     forest_predict_proba sk m (tfidf_transform sk v (narration (rows ! i))) = Some q \<and>
                     out ! i = (rows ! i)\<lparr>category := p, confidence := q, method := ''ml-based''\<rparr>
              else out ! i = rows ! i"
        by blast
      show ?thesis
      proof (cases "conf < unknown_threshold st")
        case True
        with at_i conf narr obtain p q where
          "forest_predict sk m (tfidf_transform sk v (narration (df ! i))) = Some p"
          "forest_predict_proba sk m (tfidf_transform sk v (narration (df ! i))) = Some q"
          "out ! i = (rows ! i)\<lparr>category := p, confidence := q, method := ''ml-based''\<rparr>"
          by auto
        with True low(1) v m show ?thesis by (simp add: ri)
      next
        case False
        with at_i conf have "out ! i = rows ! i" by simp
        with False ri show ?thesis by simp
      qed
    qed
    with km show "\<exists>cat conf.
          keyword_match (categories st) (narration (df ! i)) = Inr (cat, conf) \<and>
          (if ml_classifier st \<noteq> None \<and> conf < unknown_threshold st
           then \<exists>v m p q. vectorizer st = Some v \<and> ml_classifier st = Some m \<and>
                  forest_predict sk m (tfidf_transform sk v (narration (df ! i))) = Some p \<and>
                  forest_predict_proba sk m (tfidf_transform sk v (narration (df ! i))) = Some q \<and>
                  out ! i = \<lparr>narration = narration (df ! i), amount = amount (df ! i),
                              category = p, confidence = q, method = ''ml-based''\<rparr>
           else out ! i = \<lparr>narration = narration (df ! i), amount = amount (df ! i),
                              category = cat, confidence = conf, method = ''rule-based''\<rparr>)"
      by blast
  qed
next
  assume a: "keywords_nonblank (categories st) \<and> ml_classifier st = None"
  then obtain rows where rows: "rule_based_rows (categories st) df = Inr rows"
    using rule_based_rows_returns by blast
  note nth = rule_based_rows_nth [OF rows]
  have ret: "classify_batch sk st df = Inr rows"
    using a rows by (simp add: classify_batch_def)
  have "method r = ''rule-based''" if "r \<in> set rows" for r
  proof -
    from that obtain i where "i < length rows" "rows ! i = r" by (auto simp: in_set_conv_nth)
    with nth obtain cat conf where "r = rule_row (df ! i) cat conf" by auto
    then show ?thesis by (simp add: rule_row_def)
  qed
  with ret nth show "\<exists>res. classify_batch sk st df = Inr res \<and> length res = length df \<and>
               (\<forall>r \<in> set res. method r = ''rule-based'')"
    by blast
next
  assume a: "keywords_nonblank (categories st) \<and> df \<noteq> [] \<and>
        vectorizer st = Some v0 \<and> ml_classifier st = Some m0 \<and>
        (\<forall>row \<in> set df.
            forest_predict sk m0 (tfidf_transform sk v0 (narration row)) \<noteq> None \<and>
            forest_predict_proba sk m0 (tfidf_transform sk v0 (narration row)) \<noteq> None)"
  then obtain rows where rows: "rule_based_rows (categories st) df = Inr rows"
    using rule_based_rows_returns by blast
  have len: "length rows = length df" using rule_based_rows_nth [OF rows] by simp
  with a have ne: "rows \<noteq> []" by auto
  let ?low = "\<lambda>r. confidence r < unknown_threshold st"
  have narr: "set (map narration rows) = set (map narration df)"
    using narration_rule_rows [OF rows] by simp
  have ok: "\<forall>r \<in> set rows. ?low r \<longrightarrow>
           forest_predict sk m0 (tfidf_transform sk v0 (narration r)) \<noteq> None \<and>
           forest_predict_proba sk m0 (tfidf_transform sk v0 (narration r)) \<noteq> None"
  proof (intro ballI impI)
    fix r assume "r \<in> set rows"
    then have "narration r \<in> set (map narration df)" using narr by auto
    then obtain row where "row \<in> set df" "narration row = narration r" by auto
    with a show "forest_predict sk m0 (tfidf_transform sk v0 (narration r)) \<noteq> None \<and>
           forest_predict_proba sk m0 (tfidf_transform sk v0 (narration r)) \<noteq> None"
      by metis
  qed
  from a have v: "vectorizer st = Some v0" and m: "ml_classifier st = Some m0" by simp_all
  from ml_classify_returns [OF v m ok] obtain res where
    res: "ml_classify sk st rows (map ?low rows) = Inr res" by blast
  show "\<exists>res. classify_batch sk st df = Inr res"
    using rows ne m res by (simp add: classify_batch_def Let_def)
qed

theorem classify_batch_fallback_frame_witness:
  "classify_batch demo_sklearn demo_trained demo_batch =
     Inr [\<lparr>narration = ''corner shop'', amount = 12, category = ''Groceries'',
            confidence = 1, method = ''ml-based''\<rparr>,
          \<lparr>narration = ''Uber ride'', amount = 28, category = ''Transportation'',
            confidence = 1 / 2, method = ''rule-based''\<rparr>,
          \<lparr>narration = ''shop'', amount = 3, category = ''Other'',
            confidence = 1 / 2, method = ''ml-based''\<rparr>] \<and>
   forest_predict demo_sklearn [([True, True], ''Groceries'', Some 1)]
      (tfidf_transform demo_sklearn [''corner'', ''shop''] ''corner shop'') = Some ''Groceries'' \<and>
   forest_predict_proba demo_sklearn [([True, True], ''Groceries'', Some 1)]
      (tfidf_transform demo_sklearn [''corner'', ''shop''] ''shop'') = Some (1 / 2) \<and>
   keyword_match (categories demo_trained) ''Uber ride'' = Inr (''Transportation'', 1 / 2) \<and>
   unknown_threshold demo_trained = 3 / 10 \<and>
   (\<exists>res. classify_batch demo_sklearn demo_trained demo_batch = Inr res \<and>
          length res = length demo_batch) \<and>
   keywords_nonblank (categories demo_untrained) \<and>
   ml_classifier demo_untrained = None \<and>
   (\<exists>res. classify_batch demo_sklearn demo_untrained demo_batch = Inr res \<and>
          length res = length demo_batch \<and> list_all (\<lambda>r. method r = ''rule-based'') res) \<and>
   classify_batch demo_sklearn demo_untrained demo_batch =
     Inr [\<lparr>narration = ''corner shop'', amount = 12, category = ''Unknown'',
            confidence = 0, method = ''rule-based''\<rparr>,
          \<lparr>narration = ''Uber ride'', amount = 28, category = ''Transportation'',
            confidence = 1 / 2, method = ''rule-based''\<rparr>,
          \<lparr>narration = ''shop'', amount = 3, category = ''Unknown'',
            confidence = 0, method = ''rule-based''\<rparr>]"
proof -
  let ?out = "[\<lparr>narration = ''corner shop'', amount = 12, category = ''Groceries'',
            confidence = 1, method = ''ml-based''\<rparr>,
          \<lparr>narration = ''Uber ride'', amount = 28, category = ''Transportation'',
            confidence = 1 / 2, method = ''rule-based''\<rparr>,
          \<lparr>narration = ''shop'', amount = 3, category = ''Other'',
            confidence = 1 / 2, method = ''ml-based''\<rparr>]"
  have e1: "classify_batch demo_sklearn demo_trained demo_batch = Inr ?out"
    by (simp add: engine_defs demo_defs eval_defs)
  have e2: "classify_batch demo_sklearn demo_untrained demo_batch =
     Inr [\<lparr>narration = ''corner shop'', amount = 12, category = ''Unknown'',
            confidence = 0, method = ''rule-based''\<rparr>,
          \<lparr>narration = ''Uber ride'', amount = 28, category = ''Transportation'',
            confidence = 1 / 2, method = ''rule-based''\<rparr>,
          \<lparr>narration = ''shop'', amount = 3, category = ''Unknown'',
            confidence = 0, method = ''rule-based''\<rparr>]"
    by (simp add: engine_defs demo_defs eval_defs)
  have p1: "forest_predict demo_sklearn [([True, True], ''Groceries'', Some 1)]
      (tfidf_transform demo_sklearn [''corner'', ''shop''] ''corner shop'') = Some ''Groceries''"
    by (simp add: demo_defs eval_defs)
  have p2: "forest_predict_proba demo_sklearn [([True, True], ''Groceries'', Some 1)]
      (tfidf_transform demo_sklearn [''corner'', ''shop''] ''shop'') = Some (1 / 2)"
    by (simp add: demo_defs eval_defs)
  have km: "keyword_match (categories demo_trained) ''Uber ride'' = Inr (''Transportation'', 1 / 2)"
    by (simp add: demo_defs eval_defs)
  have thr: "unknown_threshold demo_trained = 3 / 10" by (simp add: demo_defs)
  have n: "ml_classifier demo_untrained = None"
    by (simp add: demo_defs)
  have k: "keywords_nonblank (categories demo_untrained)"
    by (simp add: demo_defs keywords_nonblank_def fixture_rules_def is_space_def)
  from classify_batch_fallback_frame [of demo_sklearn demo_trained demo_batch ?out] e1
  have len: "\<exists>res. classify_batch demo_sklearn demo_trained demo_batch = Inr res \<and>
          length res = length demo_batch" by blast
  from classify_batch_fallback_frame [of demo_sklearn demo_untrained demo_batch ?out] k n
  have noop: "\<exists>res. classify_batch demo_sklearn demo_untrained demo_batch = Inr res \<and>
          length res = length demo_batch \<and> list_all (\<lambda>r. method r = ''rule-based'') res"
    unfolding list_all_iff by blast
  from e1 p1 p2 km thr len k n noop e2 show ?thesis by blast
qed

text \<open>
  Claim C6: when fewer than 10 rows have a category other than Unknown,
  \<open>train_ml_model\<close> returns without raising and the engine, vectorizer state and
  classifier included, is exactly the engine before the call.
\<close>

theorem train_ml_model_skips:
  assumes "length (filter (\<lambda>r. category r \<noteq> ''Unknown'') df) < 10"
  shows "train_ml_model sk st df = Inr st"
  using assms by (simp add: train_ml_model_def)

theorem train_ml_model_skips_witness:
  "length (filter (\<lambda>r. category r \<noteq> ''Unknown'')
      [rule_row \<lparr>narration = ''uber ride'', amount = 28\<rparr> ''Transportation'' (1 / 2),
       rule_row \<lparr>narration = ''acme'', amount = 5\<rparr> ''Unknown'' 0]) < 10 \<and>
   train_ml_model demo_sklearn demo_untrained
      [rule_row \<lparr>narration = ''uber ride'', amount = 28\<rparr> ''Transportation'' (1 / 2),
       rule_row \<lparr>narration = ''acme'', amount = 5\<rparr> ''Unknown'' 0] = Inr demo_untrained \<and>
   vectorizer demo_untrained = None \<and> ml_classifier demo_untrained = None"
proof -
  have h: "length (filter (\<lambda>r. category r \<noteq> ''Unknown'')
      [rule_row \<lparr>narration = ''uber ride'', amount = 28\<rparr> ''Transportation'' (1 / 2),
       rule_row \<lparr>narration = ''acme'', amount = 5\<rparr> ''Unknown'' 0]) < 10"
    by (simp add: rule_row_def)
  from train_ml_model_skips [OF h, of demo_sklearn demo_untrained] h show ?thesis
    by (simp add: demo_untrained_def init_engine_def)
qed

text \<open>
  Claim C9: in the mapping that \<open>discover_new_categories\<close> returns, the keys are exactly
  the names \<^verbatim>\<open>NewCategory_<label>\<close> of the cluster labels other than the noise label -1,
  and the value of a key is the list of the texts with that label. (The values of the
  source are these lists alone; it computes no size and no induced keywords.)
\<close>

theorem discover_new_categories_items:
  assumes "discover_new_categories sk st texts = Inr (st', found)"
  shows "(length texts < 5 \<and> found = []) \<or>
         (\<exists>v. tfidf_fit sk texts = Some v \<and>
            set found =
              (\<lambda>label. (''NewCategory_'' @ py_str_int label,
                   cluster_texts texts (dbscan_fit_predict sk (map (tfidf_transform sk v) texts)) label))
                ` (set (dbscan_fit_predict sk (map (tfidf_transform sk v) texts)) - {- 1}))"
proof (cases "length texts < 5")
  case True
  with assms show ?thesis by (simp add: discover_new_categories_def)
next
  case False
  with assms obtain v where v: "tfidf_fit sk texts = Some v"
    by (auto simp: discover_new_categories_def split: option.splits)
  let ?labels = "dbscan_fit_predict sk (map (tfidf_transform sk v) texts)"
  let ?f = "\<lambda>label. (''NewCategory_'' @ py_str_int label, cluster_texts texts ?labels label)"
  have "found = map ?f (filter (\<lambda>label. label \<noteq> - 1) (remdups ?labels))"
    using assms False v by (simp add: discover_new_categories_def Let_def)
  then have "set found = ?f ` {l \<in> set ?labels. l \<noteq> - 1}" by simp
  also have "{l \<in> set ?labels. l \<noteq> - 1} = set ?labels - {- 1}" by blast
  finally show ?thesis using v by blast
qed

theorem discover_new_categories_items_witness:
  "discover_new_categories demo_sklearn demo_trained demo_unknown_texts =
     Inr (demo_trained\<lparr>vectorizer := Some [''geico'', ''insurance'', ''state'', ''farm'', ''acme'']\<rparr>,
          [(''NewCategory_0'', [''geico insurance'', ''geico insurance'']),
           (''NewCategory_1'', [''state farm'', ''state farm''])]) \<and>
   dbscan_fit_predict demo_sklearn
      (map (tfidf_transform demo_sklearn [''geico'', ''insurance'', ''state'', ''farm'', ''acme''])
         demo_unknown_texts) = [0, 0, 1, 1, - 1] \<and>
   (\<exists>v. tfidf_fit demo_sklearn demo_unknown_texts = Some v \<and>
      set [(''NewCategory_0'', [''geico insurance'', ''geico insurance'']),
           (''NewCategory_1'', [''state farm'', ''state farm''])] =
        (\<lambda>label. (''NewCategory_'' @ py_str_int label,
             cluster_texts demo_unknown_texts
               (dbscan_fit_predict demo_sklearn (map (tfidf_transform demo_sklearn v) demo_unknown_texts))
               label))
          ` (set (dbscan_fit_predict demo_sklearn
                (map (tfidf_transform demo_sklearn v) demo_unknown_texts)) - {- 1}))"
proof -
  have e: "discover_new_categories demo_sklearn demo_trained demo_unknown_texts =
     Inr (demo_trained\<lparr>vectorizer := Some [''geico'', ''insurance'', ''state'', ''farm'', ''acme'']\<rparr>,
          [(''NewCategory_0'', [''geico insurance'', ''geico insurance'']),
           (''NewCategory_1'', [''state farm'', ''state farm''])])"
    by (simp add: engine_defs demo_defs eval_defs)
  have l: "dbscan_fit_predict demo_sklearn
      (map (tfidf_transform demo_sklearn [''geico'', ''insurance'', ''state'', ''farm'', ''acme''])
         demo_unknown_texts) = [0, 0, 1, 1, - 1]"
    by (simp add: demo_defs eval_defs)
  have n: "\<not> length demo_unknown_texts < 5" by (simp add: demo_defs)
  from discover_new_categories_items [OF e] n e l show ?thesis by blast
qed

end
